theory Spec2Isabelle
  imports Main "HOL-Library.AList" "HOL-Library.Multiset"
begin

section \<open>Data model\<close>

text \<open>
  The \<open>Task\<close> row of \<open>shared/schema\<close>. Timestamps are the millisecond time values that
  \<open>new Date(x).getTime()\<close> reads; the columns are \<open>NOT NULL\<close> timestamps, so every row holds
  a valid time value. The field \<open>id\<close> is called \<open>taskId\<close> here, since \<open>id\<close> is the
  identity function of HOL.
\<close>

record Task =
  taskId :: int
  title :: string
  scheduledDate :: int
  priority :: string
  category :: string
  completed :: bool
  createdAt :: int

text \<open>
  The keys of \<open>scheduledNotifications: Map<number | string, number>\<close>. Only two shapes of
  key are ever written or read: the number \<open>task.id\<close> and the template string
  \<open>`${task.id}-reminder`\<close>. A number is never equal to a string as a \<open>Map\<close> key, and the
  template is injective in the id, so the two shapes are the two constructors.
\<close>

datatype key = NumKey int | ReminderKey int

text \<open>The three values of \<open>Notification.permission\<close>.\<close>

datatype perm = Default | Granted | Denied

text \<open>
  The notifications the service constructs: the reminder (tag \<open>task-<id>-reminder\<close>), the
  due-now alert (tag \<open>task-<id>-due\<close>) and the test notification (tag \<open>test-notification\<close>).
\<close>

datatype notification = ReminderNotification Task | DueNotification Task | TestNotification

fun requireInteraction :: "notification \<Rightarrow> bool" where
  "requireInteraction (ReminderNotification t) = False"
| "requireInteraction (DueNotification t) = True"
| "requireInteraction TestNotification = False"

text \<open>
  The closures handed to \<open>setTimeout\<close>: the two arrow functions of \<open>scheduleNotification\<close>
  (each captures its task) and the \<open>() => notification.close()\<close> of the three places that
  show a notification (the argument is the position of the notification in the list of
  notifications shown so far). \<open>OtherCallback\<close> stands for a closure of the rest of the
  page, which shares \<open>window.setTimeout\<close> and its handles with the service and does not
  touch the service.
\<close>

datatype callback = ReminderCallback Task | ExactCallback Task | CloseCallback nat
  | OtherCallback

text \<open>How a call ends: it returns, or an exception leaves it uncaught.\<close>

datatype completion = Returned | Threw

section \<open>The state: the service object and the browser around it\<close>

text \<open>
  \<open>permissionGranted\<close> and \<open>scheduledNotifications\<close> are the two private fields of
  \<open>NotificationService\<close>. A JavaScript \<open>Map\<close> keeps its entries in insertion order with one
  entry per key; it is an association list, written with \<open>AList.update\<close> (replace in place,
  or append) and \<open>AList.delete\<close>.

  The other fields are the part of the browser the service talks to:
  \<^item> \<open>notificationSupported\<close>: the test \<open>"Notification" in window\<close>;
  \<^item> \<open>permission\<close>: \<open>Notification.permission\<close>;
  \<^item> \<open>constructorThrows\<close>: whether \<open>new Notification(...)\<close> throws on this platform;
  \<^item> \<open>clock\<close>: the browser's timer clock, in milliseconds;
  \<^item> \<open>timers\<close>: the pending one-shot timers of \<open>window.setTimeout\<close>, in the order they
    were set, each a handle with the delay it was given, the instant of the clock at which
    it is due, and the closure it was given;
  \<^item> \<open>nextHandle\<close>: the handle the next \<open>setTimeout\<close> returns (handles are positive
    integers, never reused);
  \<^item> \<open>shown\<close>: the notifications constructed so far;
  \<^item> \<open>prompts\<close>: how many permission prompts were issued.
\<close>

type_synonym timer = "int \<times> (int \<times> int) \<times> callback"

record world =
  permissionGranted :: bool
  scheduledNotifications :: "(key \<times> int) list"
  notificationSupported :: bool
  permission :: perm
  constructorThrows :: bool
  clock :: int
  timers :: "timer list"
  nextHandle :: int
  shown :: "notification list"
  prompts :: nat

subsection \<open>Browser primitives\<close>

text \<open>
  The delay the browser waits for. The \<open>timeout\<close> argument of \<open>setTimeout\<close> is a
  \<open>long\<close>: the number is taken modulo \<open>2^32\<close> into the signed 32-bit range, and a
  negative value counts as \<open>0\<close>.
\<close>

definition toInt32 :: "int \<Rightarrow> int" where
  "toInt32 x = (x + 2147483648) mod 4294967296 - 2147483648"

definition timerDelay :: "int \<Rightarrow> int" where
  "timerDelay delay = max (toInt32 delay) 0"

definition setTimeout :: "callback \<Rightarrow> int \<Rightarrow> world \<Rightarrow> int \<times> world" where
  "setTimeout cb delay w =
     (nextHandle w,
      w\<lparr>timers := timers w @ [(nextHandle w, (delay, clock w + timerDelay delay), cb)],
        nextHandle := nextHandle w + 1\<rparr>)"

definition clearTimeout :: "int \<Rightarrow> world \<Rightarrow> world" where
  "clearTimeout h w = w\<lparr>timers := AList.delete h (timers w)\<rparr>"

text \<open>\<open>new Notification(...)\<close>: \<open>None\<close> when the constructor throws.\<close>

definition newNotification :: "notification \<Rightarrow> world \<Rightarrow> (nat \<times> world) option" where
  "newNotification n w =
     (if constructorThrows w then None
      else Some (length (shown w), w\<lparr>shown := shown w @ [n]\<rparr>))"

subsection \<open>Map operations on the service's field\<close>

definition mapHas :: "key \<Rightarrow> world \<Rightarrow> bool" where
  "mapHas k w = (map_of (scheduledNotifications w) k \<noteq> None)"

definition mapSet :: "key \<Rightarrow> int \<Rightarrow> world \<Rightarrow> world" where
  "mapSet k h w = w\<lparr>scheduledNotifications := AList.update k h (scheduledNotifications w)\<rparr>"

definition mapDelete :: "key \<Rightarrow> world \<Rightarrow> world" where
  "mapDelete k w = w\<lparr>scheduledNotifications := AList.delete k (scheduledNotifications w)\<rparr>"

section \<open>NotificationService\<close>

definition checkPermission :: "world \<Rightarrow> world" where
  "checkPermission w =
     (if notificationSupported w then w\<lparr>permissionGranted := (permission w = Granted)\<rparr>
      else w)"

text \<open>
  \<open>new NotificationService()\<close> in a browser described by the three parameters: the fields
  are initialised and the constructor runs \<open>checkPermission\<close>.
\<close>

definition newNotificationService :: "bool \<Rightarrow> perm \<Rightarrow> bool \<Rightarrow> world" where
  "newNotificationService supported p thr =
     checkPermission
       \<lparr>permissionGranted = False, scheduledNotifications = [],
        notificationSupported = supported, permission = p, constructorThrows = thr,
        clock = 0, timers = [], nextHandle = 1, shown = [], prompts = 0\<rparr>"

definition refreshPermissionStatus :: "world \<Rightarrow> bool \<times> world" where
  "refreshPermissionStatus w = (permissionGranted (checkPermission w), checkPermission w)"

text \<open>
  \<open>requestPermission\<close>. The parameter is what \<open>await Notification.requestPermission()\<close>
  does when it is reached: \<open>Some p\<close> when the prompt resolves to \<open>p\<close> (the browser then
  reports \<open>p\<close> as \<open>Notification.permission\<close>), \<open>None\<close> when it rejects and the \<open>catch\<close>
  block runs. The result is the resolved boolean and the state afterwards.
\<close>

definition requestPermission :: "perm option \<Rightarrow> world \<Rightarrow> bool \<times> world" where
  "requestPermission answer w =
     (if \<not> notificationSupported w then (False, w)
      else if permission w = Granted then (True, w\<lparr>permissionGranted := True\<rparr>)
      else if permission w = Denied then (False, w)
      else
        (case answer of
           None \<Rightarrow> (False, w\<lparr>prompts := prompts w + 1\<rparr>)
         | Some p \<Rightarrow>
             (let w1 = w\<lparr>prompts := prompts w + 1, permission := p\<rparr>;
                  w2 = w1\<lparr>permissionGranted := (p = Granted)\<rparr>;
                  w3 = checkPermission w2
              in (permissionGranted w3, w3))))"

text \<open>
  One block of \<open>clearNotification\<close>: \<open>get\<close> the handle stored under the key and, when it is
  truthy (present and not \<open>0\<close>), \<open>clearTimeout\<close> it and \<open>delete\<close> the key.
\<close>

definition clearEntry :: "key \<Rightarrow> world \<Rightarrow> world" where
  "clearEntry k w =
     (case map_of (scheduledNotifications w) k of
        None \<Rightarrow> w
      | Some timeoutId \<Rightarrow>
          if timeoutId \<noteq> 0 then mapDelete k (clearTimeout timeoutId w) else w)"

definition clearNotification :: "int \<Rightarrow> world \<Rightarrow> world" where
  "clearNotification tid w = clearEntry (ReminderKey tid) (clearEntry (NumKey tid) w)"

text \<open>
  \<open>scheduleNotification\<close>; \<open>now\<close> is the value of \<open>new Date().getTime()\<close> read by the call.
\<close>

definition scheduleNotification :: "int \<Rightarrow> Task \<Rightarrow> world \<Rightarrow> world" where
  "scheduleNotification now task w =
     (if \<not> permissionGranted w then w
      else
        let w1 = clearNotification (taskId task) w;
            timeDiff = scheduledDate task - now
        in if timeDiff < 0 then w1
           else
             let reminderTime = max (timeDiff - 5 * 60 * 1000) 0;
                 w2 = (if reminderTime > 0 then
                         (case setTimeout (ReminderCallback task) reminderTime w1 of
                            (reminderTimeoutId, w') \<Rightarrow>
                              mapSet (ReminderKey (taskId task)) reminderTimeoutId w')
                       else w1)
             in (case setTimeout (ExactCallback task) timeDiff w2 of
                   (exactTimeoutId, w') \<Rightarrow> mapSet (NumKey (taskId task)) exactTimeoutId w'))"

text \<open>
  \<open>showReminderNotification\<close> and \<open>showExactTimeNotification\<close>. Neither has a \<open>try\<close>: when
  the constructor throws, the exception leaves the function. \<open>playNotificationSound\<close>
  catches everything it does and touches no field, so it does not appear.
\<close>

definition showReminderNotification :: "Task \<Rightarrow> world \<Rightarrow> completion \<times> world" where
  "showReminderNotification task w =
     (if \<not> permissionGranted w then (Returned, w)
      else
        (case newNotification (ReminderNotification task) w of
           None \<Rightarrow> (Threw, w)
         | Some (n, w1) \<Rightarrow> (Returned, snd (setTimeout (CloseCallback n) 10000 w1))))"

definition showExactTimeNotification :: "Task \<Rightarrow> world \<Rightarrow> completion \<times> world" where
  "showExactTimeNotification task w =
     (if \<not> permissionGranted w then (Returned, w)
      else
        (case newNotification (DueNotification task) w of
           None \<Rightarrow> (Threw, w)
         | Some (n, w1) \<Rightarrow> (Returned, snd (setTimeout (CloseCallback n) 20000 w1))))"

text \<open>
  The body of each closure given to \<open>setTimeout\<close>. The due-now closure calls
  \<open>showExactTimeNotification\<close> and then deletes the task's own key; an exception in the
  first statement skips the second.
\<close>

fun runCallback :: "callback \<Rightarrow> world \<Rightarrow> completion \<times> world" where
  "runCallback (ReminderCallback task) w = showReminderNotification task w"
| "runCallback (ExactCallback task) w =
     (case showExactTimeNotification task w of
        (Threw, w1) \<Rightarrow> (Threw, w1)
      | (Returned, w1) \<Rightarrow> (Returned, mapDelete (NumKey (taskId task)) w1))"
| "runCallback (CloseCallback n) w = (Returned, w)"
| "runCallback OtherCallback w = (Returned, w)"

text \<open>
  The browser fires the pending timer with handle \<open>h\<close>: the timer is one-shot, so it leaves
  the table, and its closure runs. Firing a handle that is not pending does nothing.
\<close>

definition fire :: "int \<Rightarrow> world \<Rightarrow> completion \<times> world" where
  "fire h w =
     (case map_of (timers w) h of
        None \<Rightarrow> (Returned, w)
      | Some (timing, cb) \<Rightarrow> runCallback cb (clearTimeout h w))"

text \<open>
  The timer the browser runs next: the pending timer that is due first, and among timers
  due at the same instant the one that was set first. The browser runs it once the clock
  has reached the instant at which it is due.
\<close>

fun nextTimer :: "timer list \<Rightarrow> timer option" where
  "nextTimer [] = None"
| "nextTimer (t # ts) =
     (case nextTimer ts of
        None \<Rightarrow> Some t
      | Some u \<Rightarrow> if snd (fst (snd t)) \<le> snd (fst (snd u)) then Some t else Some u)"

definition runNextTimer :: "world \<Rightarrow> completion \<times> world" where
  "runNextTimer w =
     (case nextTimer (timers w) of
        None \<Rightarrow> (Returned, w)
      | Some t \<Rightarrow> fire (fst t) (w\<lparr>clock := max (clock w) (snd (fst (snd t)))\<rparr>))"

text \<open>
  \<open>clearAllNotifications\<close>: \<open>forEach\<close> entry \<open>clearTimeout\<close> its handle, then \<open>clear()\<close>.
\<close>

definition clearAllNotifications :: "world \<Rightarrow> world" where
  "clearAllNotifications w =
     (fold (\<lambda>e. clearTimeout (snd e)) (scheduledNotifications w) w)
       \<lparr>scheduledNotifications := []\<rparr>"

definition hasPermission :: "world \<Rightarrow> bool" where
  "hasPermission w = permissionGranted w"

definition getScheduledNotificationCount :: "world \<Rightarrow> nat" where
  "getScheduledNotificationCount w = length (scheduledNotifications w)"

definition isTaskScheduled :: "int \<Rightarrow> world \<Rightarrow> bool" where
  "isTaskScheduled tid w = (mapHas (NumKey tid) w \<or> mapHas (ReminderKey tid) w)"

text \<open>
  \<open>testDesktopNotification\<close>. The statement before the \<open>try\<close> reads
  \<open>Notification.permission\<close>, which throws where \<open>Notification\<close> does not exist. With the
  permission \<open>default\<close> the call starts a prompt and returns \<open>false\<close>; the parameter is the
  prompt's outcome, and on \<open>granted\<close> the continuation runs the function again, which then
  takes the last branch. The result is \<open>None\<close> for the uncaught exception.
\<close>

definition testNotificationNow :: "world \<Rightarrow> bool \<times> world" where
  "testNotificationNow w =
     (case newNotification TestNotification w of
        None \<Rightarrow> (False, w)
      | Some (n, w1) \<Rightarrow>
          (True, (snd (setTimeout (CloseCallback n) 5000 w1))\<lparr>permissionGranted := True\<rparr>))"

definition testDesktopNotification :: "perm option \<Rightarrow> world \<Rightarrow> bool option \<times> world" where
  "testDesktopNotification answer w =
     (if \<not> notificationSupported w then (None, w)
      else if permission w = Denied then (Some False, w)
      else if permission w = Default then
        (case answer of
           None \<Rightarrow> (Some False, w\<lparr>prompts := prompts w + 1\<rparr>)
         | Some p \<Rightarrow>
             (let w1 = w\<lparr>prompts := prompts w + 1, permission := p\<rparr>
              in if p = Granted then (Some False, snd (testNotificationNow w1))
                 else (Some False, w1)))
      else (case testNotificationNow w of (r, w1) \<Rightarrow> (Some r, w1)))"

section \<open>Reachable states\<close>

text \<open>
  The states the service and its browser can be in: a fresh service, then any sequence of
  the public operations, of timers firing, of time passing, of the rest of the page
  setting timers of its own, and of the user changing the permission in the browser's
  settings.
\<close>

inductive reachable :: "world \<Rightarrow> bool" where
  r_new: "reachable (newNotificationService supported p thr)"
| r_schedule: "reachable w \<Longrightarrow> reachable (scheduleNotification now task w)"
| r_clear: "reachable w \<Longrightarrow> reachable (clearNotification tid w)"
| r_clearAll: "reachable w \<Longrightarrow> reachable (clearAllNotifications w)"
| r_request: "reachable w \<Longrightarrow> reachable (snd (requestPermission answer w))"
| r_refresh: "reachable w \<Longrightarrow> reachable (snd (refreshPermissionStatus w))"
| r_test: "reachable w \<Longrightarrow> reachable (snd (testDesktopNotification answer w))"
| r_fire: "reachable w \<Longrightarrow> reachable (snd (fire h w))"
| r_settings: "reachable w \<Longrightarrow> reachable (w\<lparr>permission := p\<rparr>)"
| r_other: "reachable w \<Longrightarrow> reachable (snd (setTimeout OtherCallback delay w))"
| r_time: "reachable w \<Longrightarrow> reachable (w\<lparr>clock := clock w + int elapsed\<rparr>)"

section \<open>What is pending for a task\<close>

text \<open>
  The \<open>Map\<close> key under which \<open>scheduleNotification\<close> stores the handle of a closure: the
  reminder closure under the reminder key, the due-now closure under the task's id. The
  closures that close a notification are stored nowhere.
\<close>

fun keyOf :: "callback \<Rightarrow> key option" where
  "keyOf (ReminderCallback task) = Some (ReminderKey (taskId task))"
| "keyOf (ExactCallback task) = Some (NumKey (taskId task))"
| "keyOf (CloseCallback n) = None"
| "keyOf OtherCallback = None"

text \<open>The entries of the \<open>Map\<close> that belong to a task id, and their number.\<close>

definition entriesFor :: "int \<Rightarrow> world \<Rightarrow> (key \<times> int) list" where
  "entriesFor tid w =
     filter (\<lambda>e. fst e = NumKey tid \<or> fst e = ReminderKey tid) (scheduledNotifications w)"

definition pendingAlerts :: "int \<Rightarrow> world \<Rightarrow> nat" where
  "pendingAlerts tid w = length (entriesFor tid w)"

text \<open>The browser's pending timers whose closure is a reminder or due-now alert of the id.\<close>

definition timersFor :: "int \<Rightarrow> world \<Rightarrow> timer list" where
  "timersFor tid w =
     filter (\<lambda>t. keyOf (snd (snd t)) = Some (NumKey tid) \<or>
                 keyOf (snd (snd t)) = Some (ReminderKey tid)) (timers w)"

text \<open>
  The delay of the pending timer whose handle is stored under a key, when there is one.
\<close>

definition delayOf :: "key \<Rightarrow> world \<Rightarrow> int option" where
  "delayOf k w =
     (case map_of (scheduledNotifications w) k of
        None \<Rightarrow> None
      | Some h \<Rightarrow> map_option (\<lambda>t. fst (fst t)) (map_of (timers w) h))"

text \<open>
  The instant at which the pending timer whose handle is stored under a key is due.
\<close>

definition dueOf :: "key \<Rightarrow> world \<Rightarrow> int option" where
  "dueOf k w =
     (case map_of (scheduledNotifications w) k of
        None \<Rightarrow> None
      | Some h \<Rightarrow> map_option (\<lambda>t. snd (fst t)) (map_of (timers w) h))"

text \<open>The \<open>Map\<close> with both keys of a task id deleted.\<close>

definition cleared :: "int \<Rightarrow> world \<Rightarrow> (key \<times> int) list" where
  "cleared tid w =
     AList.delete (ReminderKey tid) (AList.delete (NumKey tid) (scheduledNotifications w))"

text \<open>
  The invariant of the reachable states: handles are positive and below the next handle,
  the \<open>Map\<close> has one entry per key, the timer table one timer per handle, and the handle
  of every pending alert timer is the one stored under its key.
\<close>

definition invariant :: "world \<Rightarrow> bool" where
  "invariant w =
     (0 < nextHandle w \<and>
      (\<forall>e \<in> set (scheduledNotifications w). 0 < snd e \<and> snd e < nextHandle w) \<and>
      distinct (map fst (scheduledNotifications w)) \<and>
      (\<forall>t \<in> set (timers w). fst t < nextHandle w) \<and>
      distinct (map fst (timers w)) \<and>
      (\<forall>t \<in> set (timers w). \<forall>k. keyOf (snd (snd t)) = Some k \<longrightarrow>
           map_of (scheduledNotifications w) k = Some (fst t)))"

definition noTimerFor :: "key \<Rightarrow> world \<Rightarrow> bool" where
  "noTimerFor k w = (\<forall>t \<in> set (timers w). keyOf (snd (snd t)) \<noteq> Some k)"

section \<open>The server: schema, storage and routes\<close>

text \<open>
  \<open>req.body\<close>, a parsed JSON value; the properties of an object are an association list
  read with \<open>map_of\<close> (a missing property reads as \<open>undefined\<close>, here \<open>None\<close>).
\<close>

datatype json = JNull | JBool bool | JNum int | JStr string | JArr "json list"
  | JObj "(string \<times> json) list"

text \<open>
  The issues of a \<open>ZodError\<close>, each with the path of the field: a value of the wrong type
  (also a required value that is missing), and a string shorter than its minimum (with
  the message the schema gives).
\<close>

datatype zodIssue = InvalidType "string list" | TooSmall "string list" string

text \<open>
  \<open>InsertTask\<close>, the output of the schema. \<open>scheduledDate\<close> is the \<open>Date\<close> that the
  transform constructs: \<open>None\<close> is the invalid date \<open>new Date(str)\<close> returns for a string
  it cannot read.
\<close>

record InsertTask =
  insertTitle :: string
  insertScheduledDate :: "int option"
  insertPriority :: string
  insertCategory :: string

text \<open>\<open>z.string()\<close>, \<open>z.string().min(1, msg)\<close> and \<open>z.string().default(dflt)\<close> on a field.\<close>

fun zString :: "string list \<Rightarrow> json option \<Rightarrow> zodIssue list + string" where
  "zString path (Some (JStr s)) = Inr s"
| "zString path v = Inl [InvalidType path]"

definition zStringMin1 :: "string list \<Rightarrow> string \<Rightarrow> json option \<Rightarrow> zodIssue list + string"
  where
  "zStringMin1 path msg v =
     (case zString path v of
        Inl issues \<Rightarrow> Inl issues
      | Inr s \<Rightarrow> if length s < 1 then Inl [TooSmall path msg] else Inr s)"

definition zStringDefault :: "string list \<Rightarrow> string \<Rightarrow> json option \<Rightarrow> zodIssue list + string"
  where
  "zStringDefault path dflt v = (case v of None \<Rightarrow> Inr dflt | Some x \<Rightarrow> zString path v)"

definition issuesOf :: "zodIssue list + 'a \<Rightarrow> zodIssue list" where
  "issuesOf r = (case r of Inl issues \<Rightarrow> issues | Inr x \<Rightarrow> [])"

text \<open>
  \<open>insertTaskSchema.parse\<close>: \<open>Inl\<close> is the thrown \<open>ZodError\<close> with the issues of all four
  fields, in the order of the schema. The first parameter is \<open>new Date(str)\<close>. The
  transform of \<open>scheduledDate\<close> validates nothing: a string that is no date passes, as
  an invalid date.
\<close>

fun insertTaskSchema_parse ::
  "(string \<Rightarrow> int option) \<Rightarrow> json \<Rightarrow> zodIssue list + InsertTask" where
  "insertTaskSchema_parse newDate (JObj props) =
     (let t = zStringMin1 [''title''] ''Title is required'' (map_of props ''title'');
          s = zString [''scheduledDate''] (map_of props ''scheduledDate'');
          p = zStringDefault [''priority''] ''medium'' (map_of props ''priority'');
          c = zStringDefault [''category''] ''personal'' (map_of props ''category'')
      in case (t, s, p, c) of
           (Inr tv, Inr sv, Inr pv, Inr cv) \<Rightarrow>
             Inr \<lparr>insertTitle = tv, insertScheduledDate = newDate sv,
                  insertPriority = pv, insertCategory = cv\<rparr>
         | _ \<Rightarrow> Inl (issuesOf t @ issuesOf s @ issuesOf p @ issuesOf c))"
| "insertTaskSchema_parse newDate v = Inl [InvalidType []]"

text \<open>
  The \<open>tasks\<close> table behind \<open>db\<close>: its rows, and whether a query succeeds at all (a
  query on a database that is not available throws).
\<close>

record database =
  rows :: "Task list"
  available :: bool

datatype dbError = QueryFailed

text \<open>
  \<open>DatabaseStorage.createTask\<close>. The parameter \<open>insertReturning\<close> is
  \<open>db.insert(tasks).values(v).returning()\<close> as the database carries it out: it throws, or
  it returns the rows it wrote and the table afterwards. Which values it accepts, and the
  \<open>id\<close>, \<open>completed\<close> and \<open>createdAt\<close> of the row it writes, are the database's. The
  function builds the values, with \<open>||\<close> replacing an empty priority or category by the
  default, and returns the first returned row (\<open>None\<close> is \<open>undefined\<close>, when no row came
  back).
\<close>

definition createTask ::
  "(InsertTask \<Rightarrow> database \<Rightarrow> dbError + (Task list \<times> database)) \<Rightarrow>
   InsertTask \<Rightarrow> database \<Rightarrow> dbError + (Task option \<times> database)" where
  "createTask insertReturning insertTask d =
     (case insertReturning
             \<lparr>insertTitle = insertTitle insertTask,
              insertScheduledDate = insertScheduledDate insertTask,
              insertPriority = (if insertPriority insertTask = [] then ''medium''
                                else insertPriority insertTask),
              insertCategory = (if insertCategory insertTask = [] then ''personal''
                                else insertCategory insertTask)\<rparr> d of
        Inl e \<Rightarrow> Inl e
      | Inr (returned, d') \<Rightarrow>
          Inr (case returned of [] \<Rightarrow> None | task # rest \<Rightarrow> Some task, d'))"

text \<open>
  \<open>Array.prototype.sort(cmp)\<close>: a stable sort by the comparator, written as insertion
  from the right; an element goes in front of the first element that the comparator does
  not put before it.
\<close>

fun insertSorted :: "('a \<Rightarrow> 'a \<Rightarrow> int) \<Rightarrow> 'a \<Rightarrow> 'a list \<Rightarrow> 'a list" where
  "insertSorted cmp x [] = [x]"
| "insertSorted cmp x (y # ys) =
     (if cmp x y \<le> 0 then x # y # ys else y # insertSorted cmp x ys)"

definition arraySort :: "('a \<Rightarrow> 'a \<Rightarrow> int) \<Rightarrow> 'a list \<Rightarrow> 'a list" where
  "arraySort cmp xs = foldr (insertSorted cmp) xs []"

text \<open>The comparator of \<open>getTasks\<close>: the difference of the two time values.\<close>

definition byScheduledDate :: "Task \<Rightarrow> Task \<Rightarrow> int" where
  "byScheduledDate a b = scheduledDate a - scheduledDate b"

definition getTasks :: "database \<Rightarrow> dbError + Task list" where
  "getTasks d =
     (if \<not> available d then Inl QueryFailed else Inr (arraySort byScheduledDate (rows d)))"

datatype responseBody = TaskJson Task | TaskListJson "Task list" | ErrorJson string
  | ErrorDetailsJson string "zodIssue list" | EmptyBody

record response =
  status :: nat
  body :: responseBody

text \<open>
  The handlers of \<open>GET /api/tasks\<close> and \<open>POST /api/tasks\<close>. \<open>res.json(undefined)\<close> sends
  no body.
\<close>

definition getTasksRoute :: "database \<Rightarrow> response \<times> database" where
  "getTasksRoute d =
     (case getTasks d of
        Inr tasks \<Rightarrow> (\<lparr>status = 200, body = TaskListJson tasks\<rparr>, d)
      | Inl e \<Rightarrow> (\<lparr>status = 500, body = ErrorJson ''Failed to fetch tasks''\<rparr>, d))"

definition postTasksRoute ::
  "(string \<Rightarrow> int option) \<Rightarrow>
   (InsertTask \<Rightarrow> database \<Rightarrow> dbError + (Task list \<times> database)) \<Rightarrow>
   json \<Rightarrow> database \<Rightarrow> response \<times> database" where
  "postTasksRoute newDate insertReturning reqBody d =
     (case insertTaskSchema_parse newDate reqBody of
        Inl issues \<Rightarrow>
          (\<lparr>status = 400, body = ErrorDetailsJson ''Invalid task data'' issues\<rparr>, d)
      | Inr validatedData \<Rightarrow>
          (case createTask insertReturning validatedData d of
             Inl e \<Rightarrow> (\<lparr>status = 500, body = ErrorJson ''Failed to create task''\<rparr>, d)
           | Inr (task, d') \<Rightarrow>
               (\<lparr>status = 201,
                 body = (case task of None \<Rightarrow> EmptyBody | Some t \<Rightarrow> TaskJson t)\<rparr>, d')))"

section \<open>Example data\<close>

text \<open>
  A task due at 600000 ms, a task due at -60000 ms, a task due at 90000 ms, a task due at
  2147600000 ms (24 days, 20 hours and 33 minutes), a browser with the permission granted,
  and one whose \<open>Notification\<close> constructor throws.
\<close>

definition task1 :: Task where
  "task1 = \<lparr>taskId = 1, title = ''Pay rent'', scheduledDate = 600000, priority = ''high'',
            category = ''work'', completed = False, createdAt = 0\<rparr>"

definition task2 :: Task where
  "task2 = \<lparr>taskId = 2, title = ''Call back'', scheduledDate = - 60000, priority = ''low'',
            category = ''personal'', completed = False, createdAt = 0\<rparr>"

definition task3 :: Task where
  "task3 = \<lparr>taskId = 3, title = ''Buy milk'', scheduledDate = 90000, priority = ''medium'',
            category = ''shopping'', completed = False, createdAt = 0\<rparr>"

definition task4 :: Task where
  "task4 = \<lparr>taskId = 4, title = ''Renew passport'', scheduledDate = 2147600000,
            priority = ''high'', category = ''personal'', completed = False, createdAt = 0\<rparr>"

definition browser1 :: world where
  "browser1 = newNotificationService True Granted False"

definition browser2 :: world where
  "browser2 = newNotificationService True Granted True"

definition database1 :: database where
  "database1 = \<lparr>rows = [task1, task2, task3], available = True\<rparr>"

definition emptyTitleBody :: json where
  "emptyTitleBody = JObj [(''title'', JStr []), (''scheduledDate'', JStr ''2025-01-12T10:00'')]"

section \<open>The invariant holds in every reachable state\<close>

subsection \<open>Association lists\<close>

lemma set_update_subset: "set (AList.update k v al) \<subseteq> insert (k, v) (set al)"
  by (induction al) auto

lemma set_delete_iff: "e \<in> set (AList.delete k al) \<longleftrightarrow> e \<in> set al \<and> fst e \<noteq> k"
  by (auto simp: AList.delete_eq)

subsection \<open>Clearing\<close>

lemma inv_owned:
  "invariant w \<Longrightarrow> t \<in> set (timers w) \<Longrightarrow> keyOf (snd (snd t)) = Some k \<Longrightarrow>
   map_of (scheduledNotifications w) k = Some (fst t)"
  by (simp add: invariant_def)

lemma invariantI:
  assumes "0 < nextHandle w"
    and "\<And>e. e \<in> set (scheduledNotifications w) \<Longrightarrow> 0 < snd e \<and> snd e < nextHandle w"
    and "distinct (map fst (scheduledNotifications w))"
    and "\<And>t. t \<in> set (timers w) \<Longrightarrow> fst t < nextHandle w"
    and "distinct (map fst (timers w))"
    and "\<And>t k. t \<in> set (timers w) \<Longrightarrow> keyOf (snd (snd t)) = Some k \<Longrightarrow>
           map_of (scheduledNotifications w) k = Some (fst t)"
  shows "invariant w"
  using assms unfolding invariant_def by blast

lemma inv_clearTimeout:
  assumes "invariant w"
  shows "invariant (clearTimeout h w)"
proof (rule invariantI)
  fix t k
  assume "t \<in> set (timers (clearTimeout h w))" "keyOf (snd (snd t)) = Some k"
  then show "map_of (scheduledNotifications (clearTimeout h w)) k = Some (fst t)"
    using inv_owned [OF assms, of t k] by (simp add: clearTimeout_def set_delete_iff)
qed (use assms in \<open>auto simp: invariant_def clearTimeout_def set_delete_iff distinct_delete\<close>)

lemma inv_mapDelete:
  assumes "invariant w" "noTimerFor k w"
  shows "invariant (mapDelete k w)"
proof -
  have "map_of (AList.delete k (scheduledNotifications w)) k' = Some (fst t)"
    if "t \<in> set (timers w)" "keyOf (snd (snd t)) = Some k'" for t k'
  proof -
    from that assms(2) have "k' \<noteq> k" by (auto simp: noTimerFor_def)
    moreover from that assms(1) have "map_of (scheduledNotifications w) k' = Some (fst t)"
      by (simp add: inv_owned)
    ultimately show ?thesis by simp
  qed
  then show ?thesis
    using assms(1)
    by (intro invariantI) (auto simp: invariant_def mapDelete_def set_delete_iff distinct_delete)
qed

lemma noTimerFor_clearTimeout_same:
  assumes "invariant w" "map_of (scheduledNotifications w) k = Some h"
  shows "noTimerFor k (clearTimeout h w)"
  unfolding noTimerFor_def
proof
  fix t
  assume t: "t \<in> set (timers (clearTimeout h w))"
  show "keyOf (snd (snd t)) \<noteq> Some k"
  proof
    assume "keyOf (snd (snd t)) = Some k"
    with t assms inv_owned [of w t k] show False
      by (simp add: clearTimeout_def set_delete_iff)
  qed
qed

lemma noTimerFor_absent:
  assumes "invariant w" "map_of (scheduledNotifications w) k = None"
  shows "noTimerFor k w"
  unfolding noTimerFor_def
proof
  fix t
  assume t: "t \<in> set (timers w)"
  show "keyOf (snd (snd t)) \<noteq> Some k"
  proof
    assume "keyOf (snd (snd t)) = Some k"
    with t assms inv_owned [of w t k] show False by simp
  qed
qed

lemma noTimerFor_clearTimeout: "noTimerFor k w \<Longrightarrow> noTimerFor k (clearTimeout h w)"
  by (auto simp: noTimerFor_def clearTimeout_def set_delete_iff)

lemma noTimerFor_mapDelete [simp]: "noTimerFor k (mapDelete k' w) = noTimerFor k w"
  by (simp add: noTimerFor_def mapDelete_def)

lemma noTimerFor_mapSet [simp]: "noTimerFor k (mapSet k' h w) = noTimerFor k w"
  by (simp add: noTimerFor_def mapSet_def)

lemma inv_positive:
  "invariant w \<Longrightarrow> map_of (scheduledNotifications w) k = Some h \<Longrightarrow> 0 < h"
  by (auto simp: invariant_def dest: map_of_SomeD)

lemma clearEntry_present:
  "invariant w \<Longrightarrow> map_of (scheduledNotifications w) k = Some h \<Longrightarrow>
   clearEntry k w = mapDelete k (clearTimeout h w)"
  using inv_positive [of w k h] by (simp add: clearEntry_def)

lemma clearEntry_absent:
  "map_of (scheduledNotifications w) k = None \<Longrightarrow> clearEntry k w = w"
  by (simp add: clearEntry_def)

lemma inv_clearEntry:
  assumes "invariant w"
  shows "invariant (clearEntry k w) \<and> noTimerFor k (clearEntry k w)"
proof (cases "map_of (scheduledNotifications w) k")
  case None
  with assms show ?thesis by (simp add: clearEntry_absent noTimerFor_absent)
next
  case (Some h)
  with assms show ?thesis
    by (simp add: clearEntry_present inv_mapDelete inv_clearTimeout
        noTimerFor_clearTimeout_same)
qed

lemma noTimerFor_clearEntry: "noTimerFor k w \<Longrightarrow> noTimerFor k (clearEntry k' w)"
  by (simp add: clearEntry_def noTimerFor_clearTimeout split: option.splits)

lemma inv_clearNotification:
  assumes "invariant w"
  shows "invariant (clearNotification tid w)"
    and "noTimerFor (NumKey tid) (clearNotification tid w)"
    and "noTimerFor (ReminderKey tid) (clearNotification tid w)"
  using assms inv_clearEntry noTimerFor_clearEntry
  by (simp_all add: clearNotification_def)

subsection \<open>Scheduling\<close>

lemma inv_schedule_timer:
  assumes "invariant w" "noTimerFor k w" "keyOf cb = Some k"
  shows "invariant (mapSet k (fst (setTimeout cb d w)) (snd (setTimeout cb d w)))"
proof (rule invariantI)
  let ?w = "mapSet k (fst (setTimeout cb d w)) (snd (setTimeout cb d w))"
  fix t k'
  assume t: "t \<in> set (timers ?w)" and k': "keyOf (snd (snd t)) = Some k'"
  show "map_of (scheduledNotifications ?w) k' = Some (fst t)"
  proof (cases "t \<in> set (timers w)")
    case True
    with k' assms(2) have "k' \<noteq> k" by (auto simp: noTimerFor_def)
    with True k' inv_owned [OF assms(1), of t k'] show ?thesis
      by (simp add: mapSet_def setTimeout_def update_conv')
  next
    case False
    with t have "t = (nextHandle w, (d, clock w + timerDelay d), cb)"
      by (simp add: mapSet_def setTimeout_def)
    with k' assms(3) show ?thesis by (simp add: mapSet_def setTimeout_def update_conv')
  qed
next
  fix e
  assume "e \<in> set (scheduledNotifications
                    (mapSet k (fst (setTimeout cb d w)) (snd (setTimeout cb d w))))"
  then have "e = (k, nextHandle w) \<or> e \<in> set (scheduledNotifications w)"
    using set_update_subset [of k "nextHandle w" "scheduledNotifications w"]
    by (auto simp: mapSet_def setTimeout_def)
  with assms(1) show "0 < snd e \<and>
       snd e < nextHandle (mapSet k (fst (setTimeout cb d w)) (snd (setTimeout cb d w)))"
    by (fastforce simp: invariant_def mapSet_def setTimeout_def)
next
  show "distinct (map fst (timers (mapSet k (fst (setTimeout cb d w)) (snd (setTimeout cb d w)))))"
    using assms(1) by (fastforce simp: invariant_def mapSet_def setTimeout_def)
qed (use assms(1) in \<open>auto simp: invariant_def mapSet_def setTimeout_def distinct_update\<close>)

lemma noTimerFor_schedule_timer:
  assumes "noTimerFor k w" "keyOf cb \<noteq> Some k"
  shows "noTimerFor k (snd (setTimeout cb d w))"
  using assms by (auto simp: noTimerFor_def setTimeout_def)

lemma inv_setTimeout_unkeyed:
  assumes "invariant w" "keyOf cb = None"
  shows "invariant (snd (setTimeout cb d w))"
proof (rule invariantI)
  fix t k
  assume "t \<in> set (timers (snd (setTimeout cb d w)))"
    and "keyOf (snd (snd t)) = Some k"
  then show "map_of (scheduledNotifications (snd (setTimeout cb d w))) k
      = Some (fst t)"
    using inv_owned [OF assms(1), of t k] assms(2) by (auto simp: setTimeout_def)
qed (use assms(1) in \<open>fastforce simp: invariant_def setTimeout_def\<close>)+

lemma inv_setTimeout_close:
  "invariant w \<Longrightarrow> invariant (snd (setTimeout (CloseCallback n) d w))"
  by (simp add: inv_setTimeout_unkeyed)

lemma noTimerFor_setTimeout_close:
  "noTimerFor k w \<Longrightarrow> noTimerFor k (snd (setTimeout (CloseCallback n) d w))"
  by (auto simp: noTimerFor_def setTimeout_def)

lemma inv_scheduleNotification:
  assumes "invariant w"
  shows "invariant (scheduleNotification now task w)"
proof -
  let ?w1 = "clearNotification (taskId task) w"
  let ?d = "scheduledDate task - now"
  let ?w2 = "mapSet (ReminderKey (taskId task))
      (fst (setTimeout (ReminderCallback task) (?d - 300000) ?w1))
      (snd (setTimeout (ReminderCallback task) (?d - 300000) ?w1))"
  note c = inv_clearNotification [OF assms, of "taskId task"]
  have w2: "invariant ?w2" "noTimerFor (NumKey (taskId task)) ?w2"
    using c by (simp_all add: inv_schedule_timer noTimerFor_schedule_timer)
  have "invariant (mapSet (NumKey (taskId task))
      (fst (setTimeout (ExactCallback task) ?d ?w2))
      (snd (setTimeout (ExactCallback task) ?d ?w2)))"
    using w2 by (simp add: inv_schedule_timer)
  moreover have "invariant (mapSet (NumKey (taskId task))
      (fst (setTimeout (ExactCallback task) ?d ?w1))
      (snd (setTimeout (ExactCallback task) ?d ?w1)))"
    using c by (simp add: inv_schedule_timer)
  ultimately show ?thesis
    using assms c(1) by (simp add: scheduleNotification_def Let_def case_prod_unfold max_def)
qed

subsection \<open>Permission, notifications and firing\<close>

lemma inv_fields [simp]:
  "invariant (w\<lparr>permissionGranted := b\<rparr>) = invariant w"
  "invariant (w\<lparr>permission := p\<rparr>) = invariant w"
  "invariant (w\<lparr>prompts := q\<rparr>) = invariant w"
  "invariant (w\<lparr>shown := ns\<rparr>) = invariant w"
  "invariant (w\<lparr>clock := c\<rparr>) = invariant w"
  by (simp_all add: invariant_def)

lemma noTimerFor_fields [simp]:
  "noTimerFor k (w\<lparr>permissionGranted := b\<rparr>) = noTimerFor k w"
  "noTimerFor k (w\<lparr>shown := ns\<rparr>) = noTimerFor k w"
  by (simp_all add: noTimerFor_def)

lemma inv_checkPermission: "invariant w \<Longrightarrow> invariant (checkPermission w)"
  by (simp add: checkPermission_def)

lemma inv_new: "invariant (newNotificationService supported p thr)"
  by (simp add: newNotificationService_def checkPermission_def invariant_def)

lemma inv_requestPermission: "invariant w \<Longrightarrow> invariant (snd (requestPermission answer w))"
  by (simp add: requestPermission_def Let_def checkPermission_def split: option.splits)

lemma inv_refresh: "invariant w \<Longrightarrow> invariant (snd (refreshPermissionStatus w))"
  by (simp add: refreshPermissionStatus_def inv_checkPermission)

lemma inv_showReminder:
  assumes "invariant w"
  shows "invariant (snd (showReminderNotification task w))"
  using assms inv_setTimeout_close [of "w\<lparr>shown := shown w @ [ReminderNotification task]\<rparr>"]
  by (simp add: showReminderNotification_def newNotification_def)

lemma inv_showExact:
  assumes "invariant w"
  shows "invariant (snd (showExactTimeNotification task w))"
  using assms inv_setTimeout_close [of "w\<lparr>shown := shown w @ [DueNotification task]\<rparr>"]
  by (simp add: showExactTimeNotification_def newNotification_def)

lemma noTimerFor_showExact:
  assumes "noTimerFor k w"
  shows "noTimerFor k (snd (showExactTimeNotification task w))"
  using assms
    noTimerFor_setTimeout_close [of k "w\<lparr>shown := shown w @ [DueNotification task]\<rparr>"]
  by (simp add: showExactTimeNotification_def newNotification_def)

lemma inv_testNotificationNow:
  assumes "invariant w"
  shows "invariant (snd (testNotificationNow w))"
  using assms inv_setTimeout_close [of "w\<lparr>shown := shown w @ [TestNotification]\<rparr>"]
  by (simp add: testNotificationNow_def newNotification_def)

lemma inv_test:
  assumes "invariant w"
  shows "invariant (snd (testDesktopNotification answer w))"
  using assms inv_testNotificationNow [of w]
    inv_testNotificationNow [of "w\<lparr>prompts := prompts w + 1, permission := Granted\<rparr>"]
  by (simp add: testDesktopNotification_def Let_def case_prod_unfold split: option.splits)

lemma inv_runCallback:
  assumes "invariant w" "\<And>k. keyOf cb = Some k \<Longrightarrow> noTimerFor k w"
  shows "invariant (snd (runCallback cb w))"
proof (cases cb)
  case (ReminderCallback task)
  with assms(1) show ?thesis by (simp add: inv_showReminder)
next
  case (ExactCallback task)
  let ?r = "showExactTimeNotification task w"
  from ExactCallback assms(2) have "noTimerFor (NumKey (taskId task)) w" by simp
  then have "invariant (mapDelete (NumKey (taskId task)) (snd ?r))"
    using assms(1) by (simp add: inv_mapDelete inv_showExact noTimerFor_showExact)
  moreover have "invariant (snd ?r)" using assms(1) by (rule inv_showExact)
  ultimately show ?thesis
    using ExactCallback by (cases ?r) (simp split: completion.splits)
next
  case (CloseCallback n)
  with assms(1) show ?thesis by simp
next
  case OtherCallback
  with assms(1) show ?thesis by simp
qed

lemma inv_fire:
  assumes "invariant w"
  shows "invariant (snd (fire h w))"
proof (cases "map_of (timers w) h")
  case None
  with assms show ?thesis by (simp add: fire_def)
next
  case (Some dc)
  obtain d cb where dc: "dc = (d, cb)" by (cases dc)
  from Some dc have mem: "(h, d, cb) \<in> set (timers w)" by (auto dest: map_of_SomeD)
  have "noTimerFor k (clearTimeout h w)" if "keyOf cb = Some k" for k
    using inv_owned [OF assms mem] that assms by (simp add: noTimerFor_clearTimeout_same)
  then have "invariant (snd (runCallback cb (clearTimeout h w)))"
    using assms by (intro inv_runCallback inv_clearTimeout)
  with Some dc show ?thesis by (simp add: fire_def)
qed

lemma fold_clearTimeout:
  "fold (\<lambda>e. clearTimeout (snd e)) es w =
   w\<lparr>timers := filter (\<lambda>t. fst t \<notin> snd ` set es) (timers w)\<rparr>"
proof (induction es arbitrary: w)
  case Nil
  show ?case by simp
next
  case (Cons e es)
  have "filter (\<lambda>t. fst t \<notin> snd ` set es) (AList.delete (snd e) (timers w))
      = filter (\<lambda>t. fst t \<notin> snd ` set (e # es)) (timers w)"
    by (auto simp: AList.delete_eq intro: filter_cong)
  with Cons show ?case by (simp add: clearTimeout_def)
qed

lemma inv_clearAll:
  assumes "invariant w"
  shows "invariant (clearAllNotifications w)"
proof (rule invariantI)
  fix t k
  assume t: "t \<in> set (timers (clearAllNotifications w))" and k: "keyOf (snd (snd t)) = Some k"
  from t have mem: "t \<in> set (timers w)"
    and out: "fst t \<notin> snd ` set (scheduledNotifications w)"
    by (simp_all add: clearAllNotifications_def fold_clearTimeout)
  from inv_owned [OF assms mem k] have "(k, fst t) \<in> set (scheduledNotifications w)"
    by (rule map_of_SomeD)
  with out have False by force
  then show "map_of (scheduledNotifications (clearAllNotifications w)) k = Some (fst t)" ..
qed (use assms in \<open>auto simp: invariant_def clearAllNotifications_def fold_clearTimeout
      distinct_map_filter\<close>)

lemma reachable_invariant: "reachable w \<Longrightarrow> invariant w"
proof (induction rule: reachable.induct)
  case (r_new supported p thr)
  show ?case by (rule inv_new)
next
  case (r_schedule w now task)
  then show ?case by (simp add: inv_scheduleNotification)
next
  case (r_clear w tid)
  then show ?case by (simp add: inv_clearNotification)
next
  case (r_clearAll w)
  then show ?case by (simp add: inv_clearAll)
next
  case (r_request w answer)
  then show ?case by (simp add: inv_requestPermission)
next
  case (r_refresh w)
  then show ?case by (simp add: inv_refresh)
next
  case (r_test w answer)
  then show ?case by (simp add: inv_test)
next
  case (r_fire w h)
  then show ?case by (simp add: inv_fire)
next
  case (r_settings w p)
  then show ?case by simp
next
  case (r_other w delay)
  then show ?case by (simp add: inv_setTimeout_unkeyed)
next
  case (r_time w elapsed)
  then show ?case by simp
qed

section \<open>The scheduler after clearing and after scheduling\<close>

lemma map_clearEntry:
  assumes "invariant w"
  shows "map_of (scheduledNotifications (clearEntry k w)) k' =
         (if k' = k then None else map_of (scheduledNotifications w) k')"
proof (cases "map_of (scheduledNotifications w) k")
  case None
  then show ?thesis by (auto simp: clearEntry_absent)
next
  case (Some h)
  with assms show ?thesis
    by (simp add: clearEntry_present mapDelete_def clearTimeout_def delete_conv')
qed

lemma map_clearNotification:
  assumes "invariant w"
  shows "map_of (scheduledNotifications (clearNotification tid w)) k =
         (if k = NumKey tid \<or> k = ReminderKey tid then None
          else map_of (scheduledNotifications w) k)"
  using assms inv_clearEntry [OF assms, of "NumKey tid"]
  by (simp add: clearNotification_def map_clearEntry)

lemma clearNotification_absent:
  "\<not> isTaskScheduled tid w \<Longrightarrow> clearNotification tid w = w"
  by (simp add: isTaskScheduled_def mapHas_def clearNotification_def clearEntry_absent)

lemma not_scheduled_after_clear:
  "invariant w \<Longrightarrow> \<not> isTaskScheduled tid (clearNotification tid w)"
  by (simp add: isTaskScheduled_def mapHas_def map_clearNotification)

lemma timersFor_empty:
  assumes "noTimerFor (NumKey tid) w" "noTimerFor (ReminderKey tid) w"
  shows "timersFor tid w = []"
  using assms by (auto simp: timersFor_def noTimerFor_def filter_empty_conv)

lemma update_absent: "k \<notin> fst ` set al \<Longrightarrow> AList.update k v al = al @ [(k, v)]"
  by (induction al) auto

lemma entries_clearEntry:
  assumes "invariant w"
  shows "scheduledNotifications (clearEntry k w) = AList.delete k (scheduledNotifications w)"
proof (cases "map_of (scheduledNotifications w) k")
  case None
  then show ?thesis by (simp add: clearEntry_absent map_of_eq_None_iff)
next
  case (Some h)
  with assms show ?thesis by (simp add: clearEntry_present mapDelete_def clearTimeout_def)
qed

lemma entries_clearNotification:
  assumes "invariant w"
  shows "scheduledNotifications (clearNotification tid w) =
         AList.delete (ReminderKey tid) (AList.delete (NumKey tid) (scheduledNotifications w))"
  using assms inv_clearEntry [OF assms, of "NumKey tid"]
  by (simp add: clearNotification_def entries_clearEntry)

lemma nextHandle_clearEntry [simp]: "nextHandle (clearEntry k w) = nextHandle w"
  by (simp add: clearEntry_def mapDelete_def clearTimeout_def split: option.splits)

lemma nextHandle_clearNotification [simp]:
  "nextHandle (clearNotification tid w) = nextHandle w"
  by (simp add: clearNotification_def)

lemma cleared_keys:
  "NumKey tid \<notin> fst ` set (cleared tid w)" "ReminderKey tid \<notin> fst ` set (cleared tid w)"
  by (auto simp: cleared_def set_delete_iff)

lemma entries_schedule:
  assumes "invariant w" "permissionGranted w"
  shows "scheduledNotifications (scheduleNotification now task w) =
     (if scheduledDate task - now < 0 then cleared (taskId task) w
      else if scheduledDate task - now > 300000 then
        cleared (taskId task) w @
          [(ReminderKey (taskId task), nextHandle w), (NumKey (taskId task), nextHandle w + 1)]
      else cleared (taskId task) w @ [(NumKey (taskId task), nextHandle w)])"
proof -
  let ?tid = "taskId task"
  have m1: "scheduledNotifications (clearNotification ?tid w) = cleared ?tid w"
    using assms(1) by (simp add: entries_clearNotification cleared_def)
  have a: "AList.update (NumKey ?tid) v (cleared ?tid w) = cleared ?tid w @ [(NumKey ?tid, v)]"
    for v by (simp add: update_absent cleared_keys)
  have b: "AList.update (ReminderKey ?tid) v (cleared ?tid w)
      = cleared ?tid w @ [(ReminderKey ?tid, v)]" for v
    by (simp add: update_absent cleared_keys)
  have c: "AList.update (NumKey ?tid) v (cleared ?tid w @ [(ReminderKey ?tid, u)])
      = cleared ?tid w @ [(ReminderKey ?tid, u), (NumKey ?tid, v)]" for u v
    using update_absent [of "NumKey ?tid" "cleared ?tid w @ [(ReminderKey ?tid, u)]" v]
    by (simp add: cleared_keys)
  show ?thesis
    using assms(2)
    by (simp add: scheduleNotification_def Let_def case_prod_unfold setTimeout_def mapSet_def
        m1 a b c max_def)
qed

lemma clock_clearNotification [simp]: "clock (clearNotification tid w) = clock w"
  by (simp add: clearNotification_def clearEntry_def mapDelete_def clearTimeout_def
      split: option.splits)

lemma timers_schedule:
  assumes "permissionGranted w"
  shows "timers (scheduleNotification now task w) =
     (if scheduledDate task - now < 0 then timers (clearNotification (taskId task) w)
      else if scheduledDate task - now > 300000 then
        timers (clearNotification (taskId task) w) @
          [(nextHandle w,
            (scheduledDate task - now - 300000,
             clock w + timerDelay (scheduledDate task - now - 300000)),
            ReminderCallback task),
           (nextHandle w + 1,
            (scheduledDate task - now, clock w + timerDelay (scheduledDate task - now)),
            ExactCallback task)]
      else timers (clearNotification (taskId task) w) @
          [(nextHandle w,
            (scheduledDate task - now, clock w + timerDelay (scheduledDate task - now)),
            ExactCallback task)])"
  using assms
  by (simp add: scheduleNotification_def Let_def case_prod_unfold setTimeout_def mapSet_def
      max_def)

lemma entriesFor_cleared:
  "filter (\<lambda>e. fst e = NumKey tid \<or> fst e = ReminderKey tid) (cleared tid w) = []"
  by (auto simp: cleared_def set_delete_iff filter_empty_conv)

lemma pending_schedule:
  assumes "invariant w" "permissionGranted w"
  shows "pendingAlerts (taskId task) (scheduleNotification now task w) =
     (if scheduledDate task - now > 5 * 60 * 1000 then 2
      else if 0 \<le> scheduledDate task - now then 1
      else 0)"
  using assms by (simp add: pendingAlerts_def entriesFor_def entries_schedule entriesFor_cleared)

subsection \<open>At most two entries and two timers per task\<close>

lemma length_le_two:
  assumes "distinct xs" "set xs \<subseteq> {a, b}"
  shows "length xs \<le> 2"
proof -
  have "length xs = card (set xs)" using assms(1) by (simp add: distinct_card)
  also have "\<dots> \<le> card {a, b}" using assms(2) by (intro card_mono) simp_all
  also have "\<dots> \<le> 2" by (simp add: card_insert_if)
  finally show ?thesis .
qed

lemma pendingAlerts_le_two:
  assumes "invariant w"
  shows "pendingAlerts tid w \<le> 2"
proof -
  have "distinct (map fst (entriesFor tid w))"
    using assms by (simp add: invariant_def entriesFor_def distinct_map_filter)
  moreover have "set (map fst (entriesFor tid w)) \<subseteq> {NumKey tid, ReminderKey tid}"
    by (auto simp: entriesFor_def)
  ultimately have "length (map fst (entriesFor tid w)) \<le> 2" by (rule length_le_two)
  then show ?thesis by (simp add: pendingAlerts_def)
qed

lemma timersFor_le_two:
  assumes "invariant w"
  shows "length (timersFor tid w) \<le> 2"
proof -
  let ?m = "map_of (scheduledNotifications w)"
  have "distinct (map fst (timersFor tid w))"
    using assms by (simp add: invariant_def timersFor_def distinct_map_filter)
  moreover have "set (map fst (timersFor tid w))
      \<subseteq> {the (?m (NumKey tid)), the (?m (ReminderKey tid))}"
  proof
    fix h
    assume "h \<in> set (map fst (timersFor tid w))"
    then obtain t where t: "t \<in> set (timers w)" "h = fst t"
      and k: "keyOf (snd (snd t)) = Some (NumKey tid) \<or>
              keyOf (snd (snd t)) = Some (ReminderKey tid)"
      by (auto simp: timersFor_def)
    from k t inv_owned [OF assms t(1)]
    show "h \<in> {the (?m (NumKey tid)), the (?m (ReminderKey tid))}" by auto
  qed
  ultimately have "length (map fst (timersFor tid w)) \<le> 2" by (rule length_le_two)
  then show ?thesis by simp
qed

lemma granted_schedule [simp]:
  "permissionGranted (scheduleNotification now task w) = permissionGranted w"
  by (simp add: scheduleNotification_def Let_def case_prod_unfold setTimeout_def mapSet_def
      clearNotification_def clearEntry_def mapDelete_def clearTimeout_def split: option.splits)

lemma timersFor_schedule:
  assumes "invariant w" "permissionGranted w"
  shows "length (timersFor (taskId task) (scheduleNotification now task w)) =
         pendingAlerts (taskId task) (scheduleNotification now task w)"
proof -
  have "timersFor (taskId task) (clearNotification (taskId task) w) = []"
    using inv_clearNotification [OF assms(1), of "taskId task"] by (simp add: timersFor_empty)
  then have "filter (\<lambda>t. keyOf (snd (snd t)) = Some (NumKey (taskId task)) \<or>
                 keyOf (snd (snd t)) = Some (ReminderKey (taskId task)))
               (timers (clearNotification (taskId task) w)) = []"
    by (simp add: timersFor_def)
  then show ?thesis
    using assms by (simp add: pending_schedule timersFor_def timers_schedule)
qed

lemma mapHas_schedule:
  assumes "invariant w" "permissionGranted w"
  shows "mapHas (NumKey (taskId task)) (scheduleNotification now task w)
           = (0 \<le> scheduledDate task - now)"
    and "mapHas (ReminderKey (taskId task)) (scheduleNotification now task w)
           = (5 * 60 * 1000 < scheduledDate task - now)"
proof -
  have n: "map_of (cleared (taskId task) w) k = None"
    if "k = NumKey (taskId task) \<or> k = ReminderKey (taskId task)" for k
    using that cleared_keys [of "taskId task" w] by (auto simp: map_of_eq_None_iff intro: rev_image_eqI)
  show "mapHas (NumKey (taskId task)) (scheduleNotification now task w)
           = (0 \<le> scheduledDate task - now)"
    using assms by (simp add: mapHas_def entries_schedule n map_add_def)
  show "mapHas (ReminderKey (taskId task)) (scheduleNotification now task w)
           = (5 * 60 * 1000 < scheduledDate task - now)"
    using assms by (simp add: mapHas_def entries_schedule n map_add_def)
qed

lemma fresh_handle:
  assumes "invariant w" "nextHandle w \<le> h"
  shows "map_of (timers w) h = None"
proof -
  have "h \<notin> fst ` set (timers w)"
  proof
    assume "h \<in> fst ` set (timers w)"
    then obtain t where "t \<in> set (timers w)" "h = fst t" by auto
    with assms show False by (auto simp: invariant_def)
  qed
  then show ?thesis by (simp add: map_of_eq_None_iff)
qed

lemma delays_schedule:
  assumes "invariant w" "permissionGranted w" "5 * 60 * 1000 < scheduledDate task - now"
  shows "delayOf (ReminderKey (taskId task)) (scheduleNotification now task w)
           = Some (scheduledDate task - now - 5 * 60 * 1000)"
    and "delayOf (NumKey (taskId task)) (scheduleNotification now task w)
           = Some (scheduledDate task - now)"
proof -
  let ?w1 = "clearNotification (taskId task) w"
  have n: "map_of (cleared (taskId task) w) k = None"
    if "k = NumKey (taskId task) \<or> k = ReminderKey (taskId task)" for k
    using that cleared_keys [of "taskId task" w]
    by (auto simp: map_of_eq_None_iff intro: rev_image_eqI)
  have i1: "invariant ?w1" using assms(1) by (rule inv_clearNotification)
  have f: "map_of (timers ?w1) (nextHandle w) = None"
    "map_of (timers ?w1) (nextHandle w + 1) = None"
    using fresh_handle [OF i1] by simp_all
  show "delayOf (ReminderKey (taskId task)) (scheduleNotification now task w)
           = Some (scheduledDate task - now - 5 * 60 * 1000)"
    using assms by (simp add: delayOf_def entries_schedule timers_schedule n f map_add_def)
  show "delayOf (NumKey (taskId task)) (scheduleNotification now task w)
           = Some (scheduledDate task - now)"
    using assms by (simp add: delayOf_def entries_schedule timers_schedule n f map_add_def)
qed

section \<open>Sorting and validation\<close>

lemma set_insertSorted: "set (insertSorted cmp x xs) = insert x (set xs)"
  by (induction xs) auto

lemma mset_insertSorted: "mset (insertSorted cmp x xs) = add_mset x (mset xs)"
  by (induction xs) auto

lemma sorted_insertSorted:
  "sorted (map scheduledDate xs) \<Longrightarrow>
   sorted (map scheduledDate (insertSorted byScheduledDate x xs))"
  by (induction xs) (auto simp: set_insertSorted byScheduledDate_def)

lemma sorted_arraySort: "sorted (map scheduledDate (arraySort byScheduledDate xs))"
  by (induction xs) (simp_all add: arraySort_def sorted_insertSorted)

lemma mset_arraySort: "mset (arraySort cmp xs) = mset xs"
  by (induction xs) (simp_all add: arraySort_def mset_insertSorted)

lemma zString_issues: "zString path v \<noteq> Inl []"
  by (cases "(path, v)" rule: zString.cases) simp_all

lemma zStringMin1_issues: "zStringMin1 path msg v \<noteq> Inl []"
  using zString_issues [of path v] by (auto simp: zStringMin1_def split: sum.splits)

lemma zStringDefault_issues: "zStringDefault path dflt v \<noteq> Inl []"
  using zString_issues [of path v] by (auto simp: zStringDefault_def split: option.splits)

lemma issuesOf_nonempty: "r \<noteq> Inl [] \<Longrightarrow> issuesOf r = [] \<longleftrightarrow> (\<exists>x. r = Inr x)"
  by (cases r) (simp_all add: issuesOf_def)

lemma issues_nonempty:
  assumes "insertTaskSchema_parse newDate reqBody = Inl issues"
  shows "issues \<noteq> []"
proof (cases reqBody)
  case (JObj props)
  let ?t = "zStringMin1 [''title''] ''Title is required'' (map_of props ''title'')"
  let ?s = "zString [''scheduledDate''] (map_of props ''scheduledDate'')"
  let ?p = "zStringDefault [''priority''] ''medium'' (map_of props ''priority'')"
  let ?c = "zStringDefault [''category''] ''personal'' (map_of props ''category'')"
  show ?thesis
  proof
    assume "issues = []"
    with assms JObj have all: "issuesOf ?t = []" "issuesOf ?s = []" "issuesOf ?p = []"
        "issuesOf ?c = []"
      and bad: "\<not> (\<exists>tv sv pv cv. ?t = Inr tv \<and> ?s = Inr sv \<and> ?p = Inr pv \<and> ?c = Inr cv)"
      by (auto simp: Let_def split: sum.splits)
    from all have "\<exists>x. ?t = Inr x" "\<exists>x. ?s = Inr x" "\<exists>x. ?p = Inr x" "\<exists>x. ?c = Inr x"
      by (simp_all add: issuesOf_nonempty zString_issues zStringMin1_issues
          zStringDefault_issues)
    with bad show False by blast
  qed
qed (use assms in auto)

lemma empty_title_invalid:
  assumes "map_of props ''title'' = Some (JStr [])"
  shows "\<exists>issues. insertTaskSchema_parse newDate (JObj props) = Inl issues \<and>
     TooSmall [''title''] ''Title is required'' \<in> set issues"
  using assms by (auto simp: Let_def zStringMin1_def issuesOf_def split: sum.splits)

section \<open>Evaluation on the example data\<close>

lemmas eval_defs = task1_def task2_def task4_def browser1_def browser2_def newNotificationService_def
  checkPermission_def scheduleNotification_def clearNotification_def clearEntry_def
  setTimeout_def timerDelay_def toInt32_def clearTimeout_def mapSet_def mapDelete_def mapHas_def
  isTaskScheduled_def fire_def
  showReminderNotification_def showExactTimeNotification_def newNotification_def
  getScheduledNotificationCount_def requestPermission_def

lemma scheduled1: "scheduleNotification 0 task1 browser1 =
   \<lparr>permissionGranted = True,
    scheduledNotifications = [(ReminderKey 1, 1), (NumKey 1, 2)],
    notificationSupported = True, permission = Granted, constructorThrows = False,
    clock = 0,
    timers = [(1, (300000, 300000), ReminderCallback task1),
              (2, (600000, 600000), ExactCallback task1)],
    nextHandle = 3, shown = [], prompts = 0\<rparr>"
  by (simp add: eval_defs)

lemma scheduled4: "scheduleNotification 0 task4 browser1 =
   \<lparr>permissionGranted = True,
    scheduledNotifications = [(ReminderKey 4, 1), (NumKey 4, 2)],
    notificationSupported = True, permission = Granted, constructorThrows = False,
    clock = 0,
    timers = [(1, (2147300000, 2147300000), ReminderCallback task4),
              (2, (2147600000, 0), ExactCallback task4)],
    nextHandle = 3, shown = [], prompts = 0\<rparr>"
  by (simp add: eval_defs)

section \<open>The branches of requestPermission\<close>

lemma requestPermission_granted:
  assumes "notificationSupported w" "permission w = Granted"
  shows "requestPermission answer w = (True, w\<lparr>permissionGranted := True\<rparr>)"
  using assms by (simp add: requestPermission_def)

lemma requestPermission_denied:
  assumes "notificationSupported w" "permission w = Denied"
  shows "requestPermission answer w = (False, w)"
  using assms by (simp add: requestPermission_def)

lemma requestPermission_prompt:
  assumes "notificationSupported w" "permission w = Default"
  shows "requestPermission (Some p) w =
           (p = Granted,
            w\<lparr>prompts := prompts w + 1, permission := p, permissionGranted := (p = Granted)\<rparr>)"
  using assms by (simp add: requestPermission_def checkPermission_def Let_def)

section \<open>The scheduler's properties\<close>

text \<open>
  C1. In a reachable state with the permission flag granted, \<open>scheduleNotification\<close> leaves
  for the task's id exactly two entries (reminder and due-now) when the task is due more
  than 5 minutes after now, exactly one (due-now) when it is due 0 to 5 minutes after now,
  and none when it is already past due. Each entry has its pending timer.
\<close>

theorem scheduleNotification_pending_alerts:
  assumes "reachable w" "permissionGranted w"
  shows "pendingAlerts (taskId task) (scheduleNotification now task w) =
           (if scheduledDate task - now > 5 * 60 * 1000 then 2
            else if 0 \<le> scheduledDate task - now then 1
            else 0) \<and>
         mapHas (NumKey (taskId task)) (scheduleNotification now task w)
           = (0 \<le> scheduledDate task - now) \<and>
         mapHas (ReminderKey (taskId task)) (scheduleNotification now task w)
           = (5 * 60 * 1000 < scheduledDate task - now) \<and>
         length (timersFor (taskId task) (scheduleNotification now task w))
           = pendingAlerts (taskId task) (scheduleNotification now task w)"
  using reachable_invariant [OF assms(1)] assms(2)
  by (simp only: pending_schedule mapHas_schedule timersFor_schedule simp_thms)

theorem scheduleNotification_pending_alerts_witness:
  "reachable browser1 \<and> permissionGranted browser1 \<and>
   pendingAlerts 1 (scheduleNotification 0 task1 browser1) = 2 \<and>
   pendingAlerts 1 (scheduleNotification 400000 task1 browser1) = 1 \<and>
   pendingAlerts 1 (scheduleNotification 600000 task1 browser1) = 1 \<and>
   pendingAlerts 1 (scheduleNotification 700000 task1 browser1) = 0"
proof -
  have r: "reachable browser1" unfolding browser1_def by (rule reachable.r_new)
  have g: "permissionGranted browser1"
    by (simp add: browser1_def newNotificationService_def checkPermission_def)
  have t: "taskId task1 = 1" "scheduledDate task1 = 600000" by (simp_all add: task1_def)
  show ?thesis
    using r g scheduleNotification_pending_alerts [OF r g, of task1 0]
      scheduleNotification_pending_alerts [OF r g, of task1 400000]
      scheduleNotification_pending_alerts [OF r g, of task1 600000]
      scheduleNotification_pending_alerts [OF r g, of task1 700000]
    by (simp add: t)
qed

text \<open>
  C2. Firing the reminder of \<open>task1\<close> (handle 1) returns, the timer is gone, and the
  reminder key is still in the \<open>Map\<close>: the reminder closure calls
  \<open>showReminderNotification\<close> and deletes nothing. After the due-now alert (handle 2) has
  fired as well and has deleted its own key, \<open>isTaskScheduled\<close> is still true and
  \<open>getScheduledNotificationCount\<close> is 1.
\<close>

theorem reminder_entry_survives_firing:
  "fst (fire 1 (scheduleNotification 0 task1 browser1)) = Returned \<and>
   mapHas (ReminderKey 1) (snd (fire 1 (scheduleNotification 0 task1 browser1))) \<and>
   map_of (timers (snd (fire 1 (scheduleNotification 0 task1 browser1)))) 1 = None \<and>
   \<not> mapHas (NumKey 1) (snd (fire 2 (snd (fire 1 (scheduleNotification 0 task1 browser1))))) \<and>
   isTaskScheduled 1 (snd (fire 2 (snd (fire 1 (scheduleNotification 0 task1 browser1))))) \<and>
   getScheduledNotificationCount
     (snd (fire 2 (snd (fire 1 (scheduleNotification 0 task1 browser1))))) = 1"
  by (simp add: eval_defs)

theorem reminder_entry_survives_firing_witness:
  "mapHas (ReminderKey 1) (snd (fire 1 (scheduleNotification 0 task1 browser1))) \<and>
   isTaskScheduled 1 (snd (fire 2 (snd (fire 1 (scheduleNotification 0 task1 browser1)))))"
  using reminder_entry_survives_firing by blast

text \<open>
  C3. In a browser whose \<open>Notification\<close> constructor throws, firing the reminder of
  \<open>task1\<close> and firing its due-now alert both end with the exception uncaught, and the
  due-now key stays in the \<open>Map\<close>, since the \<open>delete\<close> after
  \<open>showExactTimeNotification\<close> is skipped. \<open>testDesktopNotification\<close> in the same browser
  catches the exception and returns \<open>false\<close>.
\<close>

theorem constructor_error_escapes_callback:
  "fst (fire 1 (scheduleNotification 0 task1 browser2)) = Threw \<and>
   fst (fire 2 (scheduleNotification 0 task1 browser2)) = Threw \<and>
   mapHas (NumKey 1) (snd (fire 2 (scheduleNotification 0 task1 browser2))) \<and>
   testDesktopNotification answer browser2 = (Some False, browser2)"
  by (simp add: eval_defs testDesktopNotification_def testNotificationNow_def)

text \<open>
  C4. In a reachable state, two calls of \<open>scheduleNotification\<close> in succession for the same
  task leave at most two entries for its id and at most two pending alert timers for it,
  and as many entries as the second call alone leaves.
\<close>

theorem reschedule_no_duplicates:
  assumes "reachable w"
  shows "pendingAlerts (taskId task)
           (scheduleNotification now2 task (scheduleNotification now1 task w)) \<le> 2 \<and>
         length (timersFor (taskId task)
           (scheduleNotification now2 task (scheduleNotification now1 task w))) \<le> 2 \<and>
         pendingAlerts (taskId task)
           (scheduleNotification now2 task (scheduleNotification now1 task w))
           = pendingAlerts (taskId task) (scheduleNotification now2 task w)"
proof -
  let ?w1 = "scheduleNotification now1 task w"
  have i1: "invariant w" using assms by (rule reachable_invariant)
  then have i2: "invariant ?w1" by (rule inv_scheduleNotification)
  then have i3: "invariant (scheduleNotification now2 task ?w1)"
    by (rule inv_scheduleNotification)
  have "pendingAlerts (taskId task) (scheduleNotification now2 task ?w1)
      = pendingAlerts (taskId task) (scheduleNotification now2 task w)"
  proof (cases "permissionGranted w")
    case True
    with i1 i2 show ?thesis by (simp add: pending_schedule)
  next
    case False
    then show ?thesis by (simp add: scheduleNotification_def)
  qed
  moreover note pendingAlerts_le_two [OF i3, of "taskId task"]
    timersFor_le_two [OF i3, of "taskId task"]
  ultimately show ?thesis by blast
qed

theorem reschedule_no_duplicates_witness:
  "reachable browser1 \<and>
   pendingAlerts 1 (scheduleNotification 1000 task1 (scheduleNotification 0 task1 browser1)) = 2 \<and>
   length (timersFor 1
     (scheduleNotification 1000 task1 (scheduleNotification 0 task1 browser1))) \<le> 2"
proof -
  have r: "reachable browser1" unfolding browser1_def by (rule reachable.r_new)
  have t: "taskId task1 = 1" by (simp add: task1_def)
  have "pendingAlerts 1 (scheduleNotification 1000 task1 browser1) = 2"
    by (simp add: eval_defs pendingAlerts_def entriesFor_def)
  with r reschedule_no_duplicates [OF r, of task1 1000 0] show ?thesis by (simp add: t)
qed
text \<open>
  C5. In a reachable state, \<open>clearNotification\<close> removes the due-now entry and the reminder
  entry of the id, so \<open>isTaskScheduled\<close> is false afterwards and no alert timer of the id
  is pending; when neither entry is present the call changes nothing.
\<close>

theorem clearNotification_unschedules:
  assumes "reachable w"
  shows "\<not> mapHas (NumKey tid) (clearNotification tid w) \<and>
         \<not> mapHas (ReminderKey tid) (clearNotification tid w) \<and>
         \<not> isTaskScheduled tid (clearNotification tid w) \<and>
         timersFor tid (clearNotification tid w) = [] \<and>
         (\<not> isTaskScheduled tid w \<longrightarrow> clearNotification tid w = w)"
  using reachable_invariant [OF assms] inv_clearNotification [of w tid]
  by (simp add: mapHas_def map_clearNotification isTaskScheduled_def timersFor_empty
      clearNotification_absent)

theorem clearNotification_unschedules_witness:
  "reachable (scheduleNotification 0 task1 browser1) \<and>
   isTaskScheduled 1 (scheduleNotification 0 task1 browser1) \<and>
   \<not> isTaskScheduled 1 (clearNotification 1 (scheduleNotification 0 task1 browser1)) \<and>
   \<not> isTaskScheduled 2 (scheduleNotification 0 task1 browser1) \<and>
   clearNotification 2 (scheduleNotification 0 task1 browser1)
     = scheduleNotification 0 task1 browser1"
proof -
  have r: "reachable (scheduleNotification 0 task1 browser1)"
    unfolding browser1_def by (intro reachable.r_schedule reachable.r_new)
  have s: "isTaskScheduled 1 (scheduleNotification 0 task1 browser1)"
    "\<not> isTaskScheduled 2 (scheduleNotification 0 task1 browser1)"
    by (simp_all add: scheduled1 isTaskScheduled_def mapHas_def)
  show ?thesis
    using r s clearNotification_unschedules [OF r, of 1] clearNotification_unschedules [OF r, of 2]
    by simp
qed

text \<open>
  In a reachable state with the permission flag granted, when \<open>scheduleNotification\<close>
  creates a reminder entry, the delay it passes for the reminder is the delay it passes for
  the due-now alert minus 5 minutes: it is positive and strictly less.
\<close>

lemma reminder_delay_is_due_delay_minus_five_minutes:
  assumes "reachable w" "permissionGranted w"
    and "mapHas (ReminderKey (taskId task)) (scheduleNotification now task w)"
  shows "\<exists>reminderTime timeDiff.
           delayOf (ReminderKey (taskId task)) (scheduleNotification now task w)
             = Some reminderTime \<and>
           delayOf (NumKey (taskId task)) (scheduleNotification now task w) = Some timeDiff \<and>
           timeDiff = scheduledDate task - now \<and>
           reminderTime = timeDiff - 5 * 60 * 1000 \<and>
           0 < reminderTime \<and> reminderTime < timeDiff"
proof -
  have inv: "invariant w" using assms(1) by (rule reachable_invariant)
  with assms(2,3) have "5 * 60 * 1000 < scheduledDate task - now"
    by (simp add: mapHas_schedule)
  with inv assms(2) show ?thesis by (simp add: delays_schedule)
qed

text \<open>
  When the due-now delay fits the browser's 32-bit range, the reminder timer is due 5
  minutes before the due-now timer.
\<close>

lemma timerDelay_in_range: "0 \<le> d \<Longrightarrow> d \<le> 2147483647 \<Longrightarrow> timerDelay d = d"
  by (simp add: timerDelay_def toInt32_def)

lemma reminder_due_before_exact_in_range:
  assumes "invariant w" "permissionGranted w"
    and "5 * 60 * 1000 < scheduledDate task - now" "scheduledDate task - now \<le> 2147483647"
  shows "dueOf (ReminderKey (taskId task)) (scheduleNotification now task w)
           = Some (clock w + (scheduledDate task - now) - 5 * 60 * 1000)"
    and "dueOf (NumKey (taskId task)) (scheduleNotification now task w)
           = Some (clock w + (scheduledDate task - now))"
proof -
  let ?w1 = "clearNotification (taskId task) w"
  have n: "map_of (cleared (taskId task) w) k = None"
    if "k = NumKey (taskId task) \<or> k = ReminderKey (taskId task)" for k
    using that cleared_keys [of "taskId task" w]
    by (auto simp: map_of_eq_None_iff intro: rev_image_eqI)
  have i1: "invariant ?w1" using assms(1) by (rule inv_clearNotification)
  have f: "map_of (timers ?w1) (nextHandle w) = None"
    "map_of (timers ?w1) (nextHandle w + 1) = None"
    using fresh_handle [OF i1] by simp_all
  have d: "timerDelay (scheduledDate task - now) = scheduledDate task - now"
    "timerDelay (scheduledDate task - now - 300000) = scheduledDate task - now - 300000"
    using assms(3,4) by (simp_all add: timerDelay_in_range)
  show "dueOf (ReminderKey (taskId task)) (scheduleNotification now task w)
           = Some (clock w + (scheduledDate task - now) - 5 * 60 * 1000)"
    using assms by (simp add: dueOf_def entries_schedule timers_schedule n f d map_add_def)
  show "dueOf (NumKey (taskId task)) (scheduleNotification now task w)
           = Some (clock w + (scheduledDate task - now))"
    using assms by (simp add: dueOf_def entries_schedule timers_schedule n f d map_add_def)
qed

text \<open>
  C6. A task due 2147600000 ms after now, scheduled with the permission granted. The
  delays passed to \<open>setTimeout\<close> are 2147300000 ms for the reminder and 2147600000 ms for
  the due-now alert, the first 5 minutes less than the second. The second is beyond the
  signed 32-bit range, so the browser takes the due-now timer as due at once and the
  reminder as due after 2147300000 ms: the timer the browser runs next is the due-now
  timer, its closure shows the due-now notification at clock 0, and the reminder timer is
  still pending. The due-now callback fires before the reminder callback.
\<close>

theorem due_now_fires_before_reminder:
  "delayOf (ReminderKey 4) (scheduleNotification 0 task4 browser1) = Some 2147300000 \<and>
   delayOf (NumKey 4) (scheduleNotification 0 task4 browser1) = Some 2147600000 \<and>
   dueOf (ReminderKey 4) (scheduleNotification 0 task4 browser1) = Some 2147300000 \<and>
   dueOf (NumKey 4) (scheduleNotification 0 task4 browser1) = Some 0 \<and>
   nextTimer (timers (scheduleNotification 0 task4 browser1))
     = Some (2, (2147600000, 0), ExactCallback task4) \<and>
   fst (runNextTimer (scheduleNotification 0 task4 browser1)) = Returned \<and>
   shown (snd (runNextTimer (scheduleNotification 0 task4 browser1)))
     = [DueNotification task4] \<and>
   clock (snd (runNextTimer (scheduleNotification 0 task4 browser1))) = 0 \<and>
   map_of (timers (snd (runNextTimer (scheduleNotification 0 task4 browser1)))) 1
     = Some ((2147300000, 2147300000), ReminderCallback task4)"
  by (simp add: scheduled4 delayOf_def dueOf_def runNextTimer_def fire_def clearTimeout_def
      showExactTimeNotification_def newNotification_def setTimeout_def mapDelete_def
      timerDelay_def toInt32_def)

text \<open>
  C7. A service whose flag is granted, after the user has set the permission to denied in
  the browser's settings: \<open>requestPermission\<close> returns \<open>false\<close> without a prompt and leaves
  the flag \<open>true\<close>. The \<open>denied\<close> branch returns before any assignment to the flag.
\<close>

theorem requestPermission_denied_keeps_flag:
  "fst (requestPermission answer (browser1\<lparr>permission := Denied\<rparr>)) = False \<and>
   permissionGranted (snd (requestPermission answer (browser1\<lparr>permission := Denied\<rparr>))) = True \<and>
   prompts (snd (requestPermission answer (browser1\<lparr>permission := Denied\<rparr>)))
     = prompts (browser1\<lparr>permission := Denied\<rparr>)"
  by (simp add: eval_defs)

text \<open>
  C8. When the body of a \<open>POST /api/tasks\<close> request fails validation, the response is 400
  with the error \<open>Invalid task data\<close> and the issues as details, there is at least one
  issue, and the store is the one before the request.
\<close>

theorem post_invalid_rejected:
  assumes "insertTaskSchema_parse newDate reqBody = Inl issues"
  shows "postTasksRoute newDate insertReturning reqBody d =
           (\<lparr>status = 400, body = ErrorDetailsJson ''Invalid task data'' issues\<rparr>, d) \<and>
         issues \<noteq> []"
  using assms issues_nonempty [OF assms] by (simp add: postTasksRoute_def)

theorem post_invalid_rejected_witness:
  "insertTaskSchema_parse (\<lambda>s. Some 0) emptyTitleBody
     = Inl [TooSmall [''title''] ''Title is required''] \<and>
   postTasksRoute (\<lambda>s. Some 0) (\<lambda>v d. Inr ([task1], d\<lparr>rows := rows d @ [task1]\<rparr>))
       emptyTitleBody database1 =
     (\<lparr>status = 400,
       body = ErrorDetailsJson ''Invalid task data''
                [TooSmall [''title''] ''Title is required'']\<rparr>, database1)"
proof -
  have p: "insertTaskSchema_parse (\<lambda>s. Some 0) emptyTitleBody
     = Inl [TooSmall [''title''] ''Title is required'']"
    by (simp add: emptyTitleBody_def zStringMin1_def zStringDefault_def issuesOf_def)
  show ?thesis
    using p
      post_invalid_rejected
        [OF p, of "\<lambda>v d. Inr ([task1], d\<lparr>rows := rows d @ [task1]\<rparr>)" database1]
    by simp
qed

text \<open>
  C9. For every state of the store, the list that \<open>GET /api/tasks\<close> returns with status
  200, which is the list \<open>getTasks\<close> returns, is sorted ascending by \<open>scheduledDate\<close> and
  holds exactly the rows of the store.
\<close>

theorem getTasks_sorted:
  assumes "fst (getTasksRoute d) = \<lparr>status = 200, body = TaskListJson tasks\<rparr>"
  shows "sorted (map scheduledDate tasks) \<and> mset tasks = mset (rows d) \<and>
         getTasks d = Inr tasks"
  using assms
  by (auto simp: getTasksRoute_def getTasks_def sorted_arraySort mset_arraySort
      split: if_splits)

theorem getTasks_sorted_witness:
  "fst (getTasksRoute database1) = \<lparr>status = 200, body = TaskListJson [task2, task3, task1]\<rparr> \<and>
   sorted (map scheduledDate [task2, task3, task1])"
proof -
  have g: "fst (getTasksRoute database1)
      = \<lparr>status = 200, body = TaskListJson [task2, task3, task1]\<rparr>"
    by (simp add: getTasksRoute_def getTasks_def database1_def arraySort_def
        byScheduledDate_def task1_def task2_def task3_def)
  show ?thesis using g getTasks_sorted [OF g] by simp
qed

text \<open>
  C10. In a reachable state with the permission flag granted, \<open>scheduleNotification\<close> on a
  task that is past due does what \<open>clearNotification\<close> does for the task's id and
  schedules nothing: afterwards \<open>isTaskScheduled\<close> is false and no alert timer of the id is
  pending, and the state has changed when the task was scheduled before.
\<close>

theorem schedule_past_due_clears:
  assumes "reachable w" "permissionGranted w" "scheduledDate task - now < 0"
  shows "scheduleNotification now task w = clearNotification (taskId task) w \<and>
         \<not> isTaskScheduled (taskId task) (scheduleNotification now task w) \<and>
         timersFor (taskId task) (scheduleNotification now task w) = [] \<and>
         (isTaskScheduled (taskId task) w \<longrightarrow> scheduleNotification now task w \<noteq> w)"
proof -
  have eq: "scheduleNotification now task w = clearNotification (taskId task) w"
    using assms(2,3) by (simp add: scheduleNotification_def Let_def)
  have inv: "invariant w" using assms(1) by (rule reachable_invariant)
  have ns: "\<not> isTaskScheduled (taskId task) (clearNotification (taskId task) w)"
    using inv by (rule not_scheduled_after_clear)
  have "timersFor (taskId task) (clearNotification (taskId task) w) = []"
    using inv_clearNotification [OF inv, of "taskId task"] by (simp add: timersFor_empty)
  with eq ns show ?thesis by auto
qed

theorem schedule_past_due_clears_witness:
  "reachable (scheduleNotification 0 task1 browser1) \<and>
   permissionGranted (scheduleNotification 0 task1 browser1) \<and>
   scheduledDate task1 - 700000 < 0 \<and>
   isTaskScheduled 1 (scheduleNotification 0 task1 browser1) \<and>
   \<not> isTaskScheduled 1
       (scheduleNotification 700000 task1 (scheduleNotification 0 task1 browser1)) \<and>
   scheduleNotification 700000 task1 (scheduleNotification 0 task1 browser1)
     \<noteq> scheduleNotification 0 task1 browser1"
proof -
  have r: "reachable (scheduleNotification 0 task1 browser1)"
    unfolding browser1_def by (intro reachable.r_schedule reachable.r_new)
  have g: "permissionGranted (scheduleNotification 0 task1 browser1)"
    by (simp add: scheduled1)
  have t: "taskId task1 = 1" "scheduledDate task1 = 600000" by (simp_all add: task1_def)
  have d: "scheduledDate task1 - 700000 < 0" by (simp add: t)
  have s: "isTaskScheduled (taskId task1) (scheduleNotification 0 task1 browser1)"
    by (simp add: scheduled1 isTaskScheduled_def mapHas_def t)
  show ?thesis
    using r g d s [unfolded t] schedule_past_due_clears [OF r g d, unfolded t] by blast
qed

end
